theory Spec2Isabelle
  imports Complex_Main "HOL-Library.Sublist"
begin

section \<open>Data model of the ID card generator (src/src/App.tsx)\<close>

text \<open>
  The numbers of the card, the fields and the document are modelled as exact reals: the
  operations on them pass numbers through or multiply a card dimension by a constant, and
  no statement about them depends on rounding; \<open>NaN\<close> arises there only from
  \<open>parseFloat\<close>, whose result is an option. The unit conversion helpers are modelled
  in double precision, with rounding and overflow.
  Strings are lists of 8-bit characters read as UTF-16 code units below 256.
  The interfaces \<open>CardConfig\<close>, \<open>Field\<close> and \<open>Person\<close> are translated field by field;
  \<open>Field.id\<close>, \<open>Field.x\<close> and \<open>Field.y\<close> are called \<open>fid\<close>, \<open>fx\<close> and \<open>fy\<close>.
\<close>

record CardConfig =
  width :: real
  height :: real
  dpi :: real

datatype align_t = AlignLeft | AlignCenter | AlignRight

datatype side_t = Front | Back

record Field =
  fid :: string
  name :: string
  fx :: real
  fy :: real
  fontSize :: real
  color :: string
  fontFamily :: string
  align :: align_t
  side :: side_t

text \<open>
  A \<open>Person\<close> is an ordinary object whose own properties have string keys and string
  values (the key \<open>id\<close> among them): the map below is the own properties. Reading
  \<open>person[key]\<close> also finds what the object inherits from \<open>Object.prototype\<close>, and
  writing \<open>person["__proto__"]\<close> runs the prototype's setter instead of storing a
  property; both are modelled where the code reads and writes (\<open>get_prop\<close>,
  \<open>assign_cols\<close>).
\<close>

type_synonym Person = "string \<rightharpoonup> string"


definition DEFAULT_CONFIG :: CardConfig where
  "DEFAULT_CONFIG = \<lparr>width = 14, height = 19 / 2, dpi = 96\<rparr>"


section \<open>Field placement: \<open>addField\<close>, \<open>updateField\<close>, \<open>removeField\<close>\<close>

text \<open>
  \<open>Partial<Field>\<close>: every key of \<open>Field\<close> may be present (\<open>Some\<close>) or absent
  (\<open>None\<close>). The spread \<open>{ ...f, ...updates }\<close> takes each present key from
  \<open>updates\<close> and every other key from \<open>f\<close>.
\<close>

record PartialField =
  p_id :: "string option"
  p_name :: "string option"
  p_x :: "real option"
  p_y :: "real option"
  p_fontSize :: "real option"
  p_color :: "string option"
  p_fontFamily :: "string option"
  p_align :: "align_t option"
  p_side :: "side_t option"

definition no_updates :: PartialField where
  "no_updates = \<lparr>p_id = None, p_name = None, p_x = None, p_y = None, p_fontSize = None,
     p_color = None, p_fontFamily = None, p_align = None, p_side = None\<rparr>"

fun or_else :: "'a option \<Rightarrow> 'a \<Rightarrow> 'a" where
  "or_else None old = old"
| "or_else (Some v) old = v"

definition spread :: "Field \<Rightarrow> PartialField \<Rightarrow> Field" where
  "spread f updates =
     \<lparr>fid = or_else (p_id updates) (fid f),
      name = or_else (p_name updates) (name f),
      fx = or_else (p_x updates) (fx f),
      fy = or_else (p_y updates) (fy f),
      fontSize = or_else (p_fontSize updates) (fontSize f),
      color = or_else (p_color updates) (color f),
      fontFamily = or_else (p_fontFamily updates) (fontFamily f),
      align = or_else (p_align updates) (align f),
      side = or_else (p_side updates) (side f)\<rparr>"

text \<open>
  The state of the component that the three operations read and write. \<open>addField\<close>
  takes the string that \<open>Math.random().toString(36).substr(2, 9)\<close> produced as its
  first argument.
\<close>

record Design =
  config :: CardConfig
  fields_list :: "Field list"
  selectedFieldId :: "string option"
  activeSide :: side_t

definition initial_fields :: "Field list" where
  "initial_fields =
     [\<lparr>fid = ''f1'', name = ''Full Name'', fx = 70, fy = 40, fontSize = 24,
       color = ''#000000'', fontFamily = ''helvetica'', align = AlignCenter, side = Front\<rparr>,
      \<lparr>fid = ''f2'', name = ''Role'', fx = 70, fy = 55, fontSize = 16,
       color = ''#2563EB'', fontFamily = ''helvetica'', align = AlignCenter, side = Front\<rparr>]"

definition initial_design :: Design where
  "initial_design =
     \<lparr>config = DEFAULT_CONFIG, fields_list = initial_fields, selectedFieldId = None,
      activeSide = Front\<rparr>"

definition addField :: "string \<Rightarrow> Design \<Rightarrow> Design" where
  "addField random_id st =
     (let newField =
        \<lparr>fid = random_id, name = ''New Field'',
         fx = width (config st) * 5, fy = height (config st) * 5,
         fontSize = 14, color = ''#000000'', fontFamily = ''helvetica'',
         align = AlignLeft, side = activeSide st\<rparr>
      in st\<lparr>fields_list := fields_list st @ [newField], selectedFieldId := Some (fid newField)\<rparr>)"

definition updateField :: "string \<Rightarrow> PartialField \<Rightarrow> Design \<Rightarrow> Design" where
  "updateField i updates st =
     st\<lparr>fields_list := map (\<lambda>f. if fid f = i then spread f updates else f) (fields_list st)\<rparr>"

definition removeField :: "string \<Rightarrow> Design \<Rightarrow> Design" where
  "removeField i st =
     (let st' = st\<lparr>fields_list := filter (\<lambda>f. fid f \<noteq> i) (fields_list st)\<rparr>
      in if selectedFieldId st = Some i then st'\<lparr>selectedFieldId := None\<rparr> else st')"

text \<open>
  The changes that the component passes to \<open>updateField\<close>: the drag handler passes
  \<open>{x, y}\<close>, and the property panel passes \<open>{name}\<close>, \<open>{fontSize}\<close>, \<open>{align}\<close> or
  \<open>{color}\<close>. \<open>updateField\<close> is a closure handed to the design tab only, so these are
  all the changes it receives; none carries an \<open>id\<close> key. A font size text that
  does not parse gives \<open>NaN\<close>, which is not among the numbers of the field model;
  the ids and the selection do not depend on it.
\<close>

datatype field_change =
  Move real real
| Rename string
| Resize real
| Realign align_t
| Recolor string

fun changes_of :: "field_change \<Rightarrow> PartialField" where
  "changes_of (Move x1 y1) = no_updates\<lparr>p_x := Some x1, p_y := Some y1\<rparr>"
| "changes_of (Rename n) = no_updates\<lparr>p_name := Some n\<rparr>"
| "changes_of (Resize s) = no_updates\<lparr>p_fontSize := Some s\<rparr>"
| "changes_of (Realign a) = no_updates\<lparr>p_align := Some a\<rparr>"
| "changes_of (Recolor c) = no_updates\<lparr>p_color := Some c\<rparr>"

datatype design_op =
  AddField string
| UpdateField string field_change
| RemoveField string

fun apply_op :: "design_op \<Rightarrow> Design \<Rightarrow> Design" where
  "apply_op (AddField random_id) st = addField random_id st"
| "apply_op (UpdateField i change) st = updateField i (changes_of change) st"
| "apply_op (RemoveField i) st = removeField i st"

fun run_ops :: "design_op list \<Rightarrow> Design \<Rightarrow> Design" where
  "run_ops [] st = st"
| "run_ops (op # ops) st = run_ops ops (apply_op op st)"

text \<open>The selection is null or the id of a field of the current list.\<close>

definition selection_ok :: "Design \<Rightarrow> bool" where
  "selection_ok st =
     (case selectedFieldId st of None \<Rightarrow> True | Some i \<Rightarrow> i \<in> fid ` set (fields_list st))"

section \<open>Unit conversion helpers\<close>

text \<open>
  \<open>cmToPx\<close>, \<open>mmToPx\<close> and \<open>pxToMm\<close> compute in IEEE 754 double precision. A number is
  a finite value, an infinity or \<open>NaN\<close>. The result of an operation on finite values
  is the exact result rounded to 53 significant bits (to nearest, ties to even; with
  the fixed spacing \<open>2^-1074\<close> below \<open>2^-1022\<close>), and it is an infinity when the rounded
  magnitude exceeds the largest double. Zero has no sign in this model.
\<close>

datatype js_number = Num real | PosInf | NegInf | NaN

definition MAX_VALUE :: real where
  "MAX_VALUE = 2 ^ 1024 - 2 ^ 971"

definition ties_even :: "real \<Rightarrow> int" where
  "ties_even z =
     (let n = \<lfloor>z\<rfloor>; r = z - of_int n
      in if r < 1 / 2 then n else if 1 / 2 < r then n + 1 else if even n then n else n + 1)"

definition exponent :: "real \<Rightarrow> int" where
  "exponent y = max \<lfloor>log 2 \<bar>y\<bar>\<rfloor> (- 1022)"

definition round_double :: "real \<Rightarrow> js_number" where
  "round_double y =
     (if y = 0 then Num 0
      else
        (let u = 2 powi (exponent y - 52);
             r = of_int (ties_even (y / u)) * u
         in if MAX_VALUE < r then PosInf else if r < - MAX_VALUE then NegInf else Num r))"

fun js_mul :: "js_number \<Rightarrow> js_number \<Rightarrow> js_number" where
  "js_mul (Num a) (Num b) = round_double (a * b)"
| "js_mul NaN _ = NaN"
| "js_mul _ NaN = NaN"
| "js_mul PosInf (Num b) = (if 0 < b then PosInf else if b < 0 then NegInf else NaN)"
| "js_mul NegInf (Num b) = (if 0 < b then NegInf else if b < 0 then PosInf else NaN)"
| "js_mul (Num a) PosInf = (if 0 < a then PosInf else if a < 0 then NegInf else NaN)"
| "js_mul (Num a) NegInf = (if 0 < a then NegInf else if a < 0 then PosInf else NaN)"
| "js_mul PosInf PosInf = PosInf"
| "js_mul NegInf NegInf = PosInf"
| "js_mul PosInf NegInf = NegInf"
| "js_mul NegInf PosInf = NegInf"

fun js_div :: "js_number \<Rightarrow> js_number \<Rightarrow> js_number" where
  "js_div (Num a) (Num b) =
     (if b = 0 then (if a = 0 then NaN else if 0 < a then PosInf else NegInf)
      else round_double (a / b))"
| "js_div NaN _ = NaN"
| "js_div _ NaN = NaN"
| "js_div (Num a) _ = Num 0"
| "js_div PosInf (Num b) = (if 0 \<le> b then PosInf else NegInf)"
| "js_div NegInf (Num b) = (if 0 \<le> b then NegInf else PosInf)"
| "js_div _ _ = NaN"

text \<open>The literals \<open>2.54\<close> and \<open>25.4\<close> are the doubles nearest to these decimals.\<close>

definition cmToPx :: "js_number \<Rightarrow> js_number \<Rightarrow> js_number" where
  "cmToPx cm d = js_mul (js_div cm (round_double (254 / 100))) d"

definition mmToPx :: "js_number \<Rightarrow> js_number \<Rightarrow> js_number" where
  "mmToPx mm d = js_mul (js_div mm (round_double (254 / 10))) d"

definition pxToMm :: "js_number \<Rightarrow> js_number \<Rightarrow> js_number" where
  "pxToMm px d = js_div (js_mul px (round_double (254 / 10))) d"

text \<open>The same expressions in exact arithmetic.\<close>

definition mmToPx_exact :: "real \<Rightarrow> real \<Rightarrow> real" where
  "mmToPx_exact mm d = (mm / 25.4) * d"

definition pxToMm_exact :: "real \<Rightarrow> real \<Rightarrow> real" where
  "pxToMm_exact px d = (px * 25.4) / d"

section \<open>Card configuration updates\<close>

text \<open>
  The two dimension inputs run \<open>setConfig({...config, width: parseFloat(v) || 0})\<close> and
  the same for \<open>height\<close>. An event carries the result of \<open>parseFloat\<close> on the input's
  text: \<open>None\<close> is \<open>NaN\<close>. \<open>NaN || 0\<close> and \<open>0 || 0\<close> are \<open>0\<close>, every other number is
  kept. No operation of the component writes \<open>dpi\<close>.
\<close>

fun or_zero :: "real option \<Rightarrow> real" where
  "or_zero None = 0"
| "or_zero (Some r) = (if r = 0 then 0 else r)"

datatype config_event = WidthChange "real option" | HeightChange "real option"

fun setConfig :: "config_event \<Rightarrow> CardConfig \<Rightarrow> CardConfig" where
  "setConfig (WidthChange parsed) c = c\<lparr>width := or_zero parsed\<rparr>"
| "setConfig (HeightChange parsed) c = c\<lparr>height := or_zero parsed\<rparr>"

fun run_config :: "config_event list \<Rightarrow> CardConfig \<Rightarrow> CardConfig" where
  "run_config [] c = c"
| "run_config (e # es) c = run_config es (setConfig e c)"

fun positive_input :: "config_event \<Rightarrow> bool" where
  "positive_input (WidthChange parsed) = (case parsed of None \<Rightarrow> False | Some r \<Rightarrow> 0 < r)"
| "positive_input (HeightChange parsed) = (case parsed of None \<Rightarrow> False | Some r \<Rightarrow> 0 < r)"

definition valid_config :: "CardConfig \<Rightarrow> bool" where
  "valid_config c = (0 < width c \<and> 0 < height c \<and> 0 < dpi c)"

section \<open>The document backend\<close>

















section \<open>The merge: \<open>generatePDF\<close>\<close>


























section \<open>Bulk import: \<open>handleBulkUpload\<close>\<close>

text \<open>
  \<open>String.prototype.trim\<close> removes white space and line terminators from both ends;
  below code unit 256 these are tab, line feed, vertical tab, form feed, carriage
  return, space and no-break space. \<open>s.split(c)\<close> with a one-character separator
  returns the pieces between the separators, so it never returns an empty array.
\<close>

definition is_space :: "char \<Rightarrow> bool" where
  "is_space c = (c \<in> {CHR 0x09, CHR 0x0A, CHR 0x0B, CHR 0x0C, CHR 0x0D, CHR 0x20, CHR 0xA0})"

definition trim :: "string \<Rightarrow> string" where
  "trim s = rev (dropWhile is_space (rev (dropWhile is_space s)))"

fun split_js :: "char \<Rightarrow> string \<Rightarrow> string list" where
  "split_js sep [] = [[]]"
| "split_js sep (c # cs) =
     (if c = sep then [] # split_js sep cs
      else (case split_js sep cs of [] \<Rightarrow> [[c]] | piece # pieces \<Rightarrow> (c # piece) # pieces))"

text \<open>
  \<open>headers.forEach((header, index) => { if (values[index]) person[header] = values[index] })\<close>:
  \<open>values[index]\<close> is \<open>undefined\<close> past the end of \<open>values\<close>, and \<open>undefined\<close> and the
  empty string are falsy. The assignment stores an own property, except for the header
  \<open>__proto__\<close>: that assignment runs the setter of \<open>Object.prototype\<close>, which ignores
  a string and stores nothing.
\<close>

fun assign_cols :: "string list \<Rightarrow> string list \<Rightarrow> nat \<Rightarrow> Person \<Rightarrow> Person" where
  "assign_cols [] values index person = person"
| "assign_cols (header # rest) values index person =
     assign_cols rest values (Suc index)
       (if index < length values \<and> values ! index \<noteq> []
        then (if header = ''__proto__'' then person else person(header \<mapsto> values ! index))
        else person)"

text \<open>
  The loop \<open>for (let i = 1; i < lines.length; i++)\<close>. \<open>rand k\<close> is the string that
  the \<open>k\<close>-th evaluation of \<open>Math.random().toString(36).substr(2, 9)\<close> in this call
  produces; iteration \<open>i\<close> makes evaluation \<open>i - 1\<close>.
\<close>

function import_rows ::
  "(nat \<Rightarrow> string) \<Rightarrow> string list \<Rightarrow> string list \<Rightarrow> nat \<Rightarrow> Person list \<Rightarrow> Person list" where
  "import_rows rand headers lines i newPeople =
     (if i < length lines
      then
        (let values = map trim (split_js CHR '','' (lines ! i));
             person = [''id'' \<mapsto> rand (i - 1)];
             person = assign_cols headers values 0 person
         in import_rows rand headers lines (Suc i) (newPeople @ [person]))
      else newPeople)"
  by pat_completeness auto
termination
  by (relation "measure (\<lambda>(rand, headers, lines, i, newPeople). length lines - i)") auto

text \<open>The state written is the attendee table \<open>people\<close>; the result is its new value.\<close>

definition handleBulkUpload :: "(nat \<Rightarrow> string) \<Rightarrow> string \<Rightarrow> Person list \<Rightarrow> Person list" where
  "handleBulkUpload rand input people =
     (let lines = split_js CHR 0x0A (trim input)
      in if length lines < 2 then people
         else
           (let headers = map trim (split_js CHR '','' (lines ! 0))
            in import_rows rand headers lines 1 []))"

text \<open>
  The record of one data row in the words of the specification: the generated id, then
  the headers zipped with the row's values, columns with an empty value left out, a
  later column winning over an earlier one of the same name.
\<close>

definition zipped_record :: "string \<Rightarrow> string list \<Rightarrow> string list \<Rightarrow> Person" where
  "zipped_record generated_id headers values =
     [''id'' \<mapsto> generated_id] ++ map_of (rev (filter (\<lambda>(h, v). v \<noteq> []) (zip headers values)))"

text \<open>What the loop stores for one data row: the same, without the columns named \<open>__proto__\<close>.\<close>

definition stored_record :: "string \<Rightarrow> string list \<Rightarrow> string list \<Rightarrow> Person" where
  "stored_record generated_id headers values =
     [''id'' \<mapsto> generated_id]
       ++ map_of (rev (filter (\<lambda>(h, v). v \<noteq> [] \<and> h \<noteq> ''__proto__'') (zip headers values)))"

definition cells :: "string \<Rightarrow> string list" where
  "cells line = map trim (split_js CHR '','' line)"

text \<open>
  Column \<open>c\<close> decides the id of a row: it is named \<open>id\<close>, the row's trimmed value there
  is not empty, and no later column named \<open>id\<close> has a non-empty value in the row.
\<close>

definition decides_id :: "string list \<Rightarrow> string list \<Rightarrow> nat \<Rightarrow> bool" where
  "decides_id headers values c =
     (c < length headers \<and> c < length values \<and> headers ! c = ''id'' \<and> values ! c \<noteq> []
      \<and> list_all (\<lambda>c'. headers ! c' = ''id'' \<longrightarrow> values ! c' = [])
            [Suc c ..< min (length headers) (length values)])"

text \<open>Two sequences of generated ids for concrete runs: distinct ones and a repeated one.\<close>

definition sample_ids :: "nat \<Rightarrow> string" where
  "sample_ids k = (if k = 0 then ''k3x9q0zab'' else ''m1p8d2wqc'')"

definition repeated_ids :: "nat \<Rightarrow> string" where
  "repeated_ids k = ''k3x9q0zab''"

section \<open>Field placement: frame and selection\<close>

lemma spread_no_id: "p_id u = None \<Longrightarrow> fid (spread f u) = fid f"
  by (simp add: spread_def)

lemma fields_updateField:
  "fields_list (updateField i u st)
     = map (\<lambda>f. if fid f = i then spread f u else f) (fields_list st)"
  by (simp add: updateField_def)

lemma fields_removeField:
  "fields_list (removeField i st) = filter (\<lambda>f. fid f \<noteq> i) (fields_list st)"
  by (simp add: removeField_def Let_def)

lemma selection_addField: "selection_ok (addField r st)"
  by (simp add: selection_ok_def addField_def Let_def)

lemma ids_updateField:
  "p_id u = None \<Longrightarrow> map fid (fields_list (updateField i u st)) = map fid (fields_list st)"
  by (simp add: fields_updateField spread_no_id)

lemma selection_updateField:
  assumes "selection_ok st" and "p_id u = None"
  shows "selection_ok (updateField i u st)"
proof -
  have "fid ` set (fields_list (updateField i u st)) = fid ` set (fields_list st)"
    using ids_updateField [OF assms(2), of i st] by (metis set_map)
  moreover have "selectedFieldId (updateField i u st) = selectedFieldId st"
    by (simp add: updateField_def)
  ultimately show ?thesis
    using assms(1) by (simp add: selection_ok_def split: option.splits)
qed

lemma selection_removeField: "selection_ok st \<Longrightarrow> selection_ok (removeField i st)"
  by (auto simp: selection_ok_def removeField_def Let_def split: option.splits)

lemma changes_of_no_id: "p_id (changes_of change) = None"
  by (cases change) (simp_all add: no_updates_def)

lemma selection_apply_op: "selection_ok st \<Longrightarrow> selection_ok (apply_op op st)"
  by (cases op)
    (simp_all add: selection_addField selection_updateField selection_removeField
      changes_of_no_id)

lemma selection_run_ops: "selection_ok st \<Longrightarrow> selection_ok (run_ops ops st)"
  by (induction ops arbitrary: st) (simp_all add: selection_apply_op)

lemma selection_initial_design: "selection_ok initial_design"
  by (simp add: selection_ok_def initial_design_def)

text \<open>
  Claim C9. \<open>updateField(id, changes)\<close> keeps the length and the order of the field
  list: the field at every position is the old one when its id differs from \<open>id\<close>, and
  the old one with the changes merged in when its id is \<open>id\<close>, where merging takes each
  attribute from the changes when they carry it and from the old field otherwise.
  \<open>removeField(id)\<close> leaves exactly the fields whose id differs from \<open>id\<close>, in their
  old relative order.
\<close>

theorem field_list_frame:
  "length (fields_list (updateField i u st)) = length (fields_list st)
   \<and> (\<forall>k < length (fields_list st).
        fields_list (updateField i u st) ! k =
          (if fid (fields_list st ! k) = i then spread (fields_list st ! k) u
           else fields_list st ! k))
   \<and> spread f u =
        \<lparr>fid = (case p_id u of None \<Rightarrow> fid f | Some v \<Rightarrow> v),
         name = (case p_name u of None \<Rightarrow> name f | Some v \<Rightarrow> v),
         fx = (case p_x u of None \<Rightarrow> fx f | Some v \<Rightarrow> v),
         fy = (case p_y u of None \<Rightarrow> fy f | Some v \<Rightarrow> v),
         fontSize = (case p_fontSize u of None \<Rightarrow> fontSize f | Some v \<Rightarrow> v),
         color = (case p_color u of None \<Rightarrow> color f | Some v \<Rightarrow> v),
         fontFamily = (case p_fontFamily u of None \<Rightarrow> fontFamily f | Some v \<Rightarrow> v),
         align = (case p_align u of None \<Rightarrow> align f | Some v \<Rightarrow> v),
         side = (case p_side u of None \<Rightarrow> side f | Some v \<Rightarrow> v)\<rparr>
   \<and> fields_list (removeField i st) = filter (\<lambda>f. fid f \<noteq> i) (fields_list st)
   \<and> set (fields_list (removeField i st)) = {f \<in> set (fields_list st). fid f \<noteq> i}
   \<and> subseq (fields_list (removeField i st)) (fields_list st)"
proof -
  have or_else_case: "\<And>(v :: 'b option) d. or_else v d = (case v of None \<Rightarrow> d | Some w \<Rightarrow> w)"
    by (simp split: option.split)
  show ?thesis
    by (simp add: fields_updateField fields_removeField spread_def or_else_case)
qed

theorem field_list_frame_witness:
  "fields_list (updateField ''f2'' (no_updates\<lparr>p_x := Some 10, p_y := Some 20\<rparr>) initial_design) ! 0
      = initial_fields ! 0
   \<and> fields_list (updateField ''f2'' (no_updates\<lparr>p_x := Some 10, p_y := Some 20\<rparr>) initial_design) ! 1
      = (initial_fields ! 1)\<lparr>fx := 10, fy := 20\<rparr>
   \<and> fields_list (removeField ''f1'' initial_design) = [initial_fields ! 1]"
proof -
  note th = field_list_frame [of "''f2''" "no_updates\<lparr>p_x := Some 10, p_y := Some 20\<rparr>"
      initial_design "initial_fields ! 1"]
  note th2 = field_list_frame [of "''f1''" no_updates initial_design]
  have f: "fields_list initial_design = initial_fields"
    by (simp add: initial_design_def)
  have l: "length initial_fields = 2"
    by (simp add: initial_fields_def)
  from th have q: "\<forall>k < 2. fields_list (updateField ''f2'' (no_updates\<lparr>p_x := Some 10, p_y := Some 20\<rparr>) initial_design) ! k
      = (if fid (initial_fields ! k) = ''f2''
         then spread (initial_fields ! k) (no_updates\<lparr>p_x := Some 10, p_y := Some 20\<rparr>)
         else initial_fields ! k)"
    unfolding f l by blast
  from th have s: "spread (initial_fields ! 1) (no_updates\<lparr>p_x := Some 10, p_y := Some 20\<rparr>)
      = (initial_fields ! 1)\<lparr>fx := 10, fy := 20\<rparr>"
    by (simp add: no_updates_def initial_fields_def)
  from th2 have r: "fields_list (removeField ''f1'' initial_design) = [initial_fields ! 1]"
    by (simp add: f initial_fields_def)
  have "fields_list (updateField ''f2'' (no_updates\<lparr>p_x := Some 10, p_y := Some 20\<rparr>) initial_design) ! 0
      = initial_fields ! 0"
    using q [rule_format, of 0] by (simp add: initial_fields_def)
  moreover have "fields_list (updateField ''f2'' (no_updates\<lparr>p_x := Some 10, p_y := Some 20\<rparr>) initial_design) ! 1
      = (initial_fields ! 1)\<lparr>fx := 10, fy := 20\<rparr>"
    using q [rule_format, of 1] s by (simp add: initial_fields_def)
  ultimately show ?thesis using r by blast
qed

text \<open>
  Claim C8. After every sequence of \<open>addField\<close>, \<open>updateField\<close> and \<open>removeField\<close>
  operations that the component issues, from the initial state and from any state whose
  selection is null or the id of a field of the list, the selection is null or the id of
  a field of the current list; \<open>removeField(id)\<close> sets the selection to null whenever
  \<open>id\<close> was selected, and never leaves \<open>id\<close> selected.
\<close>

theorem selection_refers_to_field:
  "selection_ok (run_ops ops initial_design)
   \<and> (selection_ok st \<longrightarrow> selection_ok (run_ops ops st))
   \<and> (selectedFieldId st = Some i \<longrightarrow> selectedFieldId (removeField i st) = None)
   \<and> selectedFieldId (removeField i st) \<noteq> Some i"
  by (auto simp: selection_run_ops selection_initial_design removeField_def Let_def)

theorem selection_refers_to_field_witness:
  "selection_ok (run_ops [AddField ''k3x9q0zab'', UpdateField ''k3x9q0zab'' (Rename ''Title''),
        UpdateField ''k3x9q0zab'' (Move 30 12), RemoveField ''f1''] initial_design)
   \<and> selectedFieldId (run_ops [AddField ''k3x9q0zab'', UpdateField ''k3x9q0zab'' (Rename ''Title''),
        UpdateField ''k3x9q0zab'' (Move 30 12), RemoveField ''f1''] initial_design) = Some ''k3x9q0zab''
   \<and> selectedFieldId (addField ''k3x9q0zab'' initial_design) = Some ''k3x9q0zab''
   \<and> selectedFieldId (removeField ''k3x9q0zab'' (addField ''k3x9q0zab'' initial_design)) = None"
  using selection_refers_to_field [of
      "[AddField ''k3x9q0zab'', UpdateField ''k3x9q0zab'' (Rename ''Title''),
        UpdateField ''k3x9q0zab'' (Move 30 12), RemoveField ''f1'']"
      "addField ''k3x9q0zab'' initial_design" "''k3x9q0zab''"]
  by (simp add: initial_design_def no_updates_def addField_def updateField_def removeField_def
      Let_def initial_fields_def)

section \<open>Card configuration\<close>

lemma dpi_setConfig: "dpi (setConfig e c) = dpi c"
  by (cases e) simp_all

lemma dpi_run_config: "dpi (run_config es c) = dpi c"
  by (induction es arbitrary: c) (simp_all add: dpi_setConfig)

lemma valid_setConfig: "valid_config c \<Longrightarrow> positive_input e \<Longrightarrow> valid_config (setConfig e c)"
  by (cases e) (auto simp: valid_config_def split: option.splits)

lemma valid_run_config:
  "valid_config c \<Longrightarrow> list_all positive_input es \<Longrightarrow> valid_config (run_config es c)"
  by (induction es arbitrary: c) (simp_all add: valid_setConfig)

lemma valid_DEFAULT_CONFIG: "valid_config DEFAULT_CONFIG"
  by (simp add: valid_config_def DEFAULT_CONFIG_def)

text \<open>
  Claim C7, as amended. In every state reachable from the default configuration through
  the width and height inputs, the resolution is still 96, hence positive. An input
  sets its dimension to the parsed number, and to 0 when the text is not a number; width
  and height are positive in the reached state when every input parsed to a positive
  number.
\<close>

theorem config_positive_for_positive_inputs:
  "dpi (run_config es DEFAULT_CONFIG) = 96
   \<and> 0 < dpi (run_config es DEFAULT_CONFIG)
   \<and> (list_all positive_input es \<longrightarrow> valid_config (run_config es DEFAULT_CONFIG))
   \<and> width (setConfig (WidthChange parsed) c) = (case parsed of None \<Rightarrow> 0 | Some r \<Rightarrow> r)
   \<and> height (setConfig (HeightChange parsed) c) = (case parsed of None \<Rightarrow> 0 | Some r \<Rightarrow> r)"
proof -
  have d: "dpi (run_config es DEFAULT_CONFIG) = 96"
    by (simp add: dpi_run_config DEFAULT_CONFIG_def)
  have v: "list_all positive_input es \<longrightarrow> valid_config (run_config es DEFAULT_CONFIG)"
    by (simp add: valid_run_config valid_DEFAULT_CONFIG)
  have w: "width (setConfig (WidthChange parsed) c) = (case parsed of None \<Rightarrow> 0 | Some r \<Rightarrow> r)"
    by (simp split: option.split)
  have h: "height (setConfig (HeightChange parsed) c) = (case parsed of None \<Rightarrow> 0 | Some r \<Rightarrow> r)"
    by (simp split: option.split)
  from d v w h show ?thesis by simp
qed

theorem config_positive_for_positive_inputs_witness:
  "list_all positive_input [WidthChange (Some 8.5), HeightChange (Some 5.4)]
   \<and> valid_config (run_config [WidthChange (Some 8.5), HeightChange (Some 5.4)] DEFAULT_CONFIG)
   \<and> width (run_config [WidthChange (Some 8.5), HeightChange (Some 5.4)] DEFAULT_CONFIG) = 8.5
   \<and> dpi (run_config [WidthChange (Some 8.5), HeightChange (Some 5.4)] DEFAULT_CONFIG) = 96"
  using config_positive_for_positive_inputs
    [of "[WidthChange (Some 8.5), HeightChange (Some 5.4)]"]
  by (simp add: DEFAULT_CONFIG_def)

text \<open>
  The claim as first stated fails: after a width input that is not a number, the width
  of the reached state is 0.
\<close>

theorem width_zero_after_non_numeric_input:
  "\<not> 0 < width (run_config [WidthChange None] DEFAULT_CONFIG)"
  by simp

section \<open>Unit conversion in double precision\<close>

lemma ties_even_close: "\<bar>of_int (ties_even z) - z\<bar> \<le> 1 / 2"
proof -
  have "of_int \<lfloor>z\<rfloor> \<le> z" "z < of_int \<lfloor>z\<rfloor> + 1"
    by linarith+
  then show ?thesis
    unfolding ties_even_def Let_def by (auto simp: abs_le_iff)
qed

lemma ties_even_ge_floor: "\<lfloor>z\<rfloor> \<le> ties_even z"
  by (simp add: ties_even_def Let_def)

lemma ties_even_zero: "0 \<le> z \<Longrightarrow> z < 1 / 2 \<Longrightarrow> ties_even z = 0"
proof -
  assume a: "0 \<le> z" "z < 1 / 2"
  then have "\<lfloor>z\<rfloor> = 0" by (simp add: floor_eq_iff)
  with a show ?thesis by (simp add: ties_even_def Let_def)
qed

lemma log2_bracket:
  assumes "y \<noteq> 0"
  shows "2 powi \<lfloor>log 2 \<bar>y\<bar>\<rfloor> \<le> \<bar>y\<bar>" and "\<bar>y\<bar> < 2 powi (\<lfloor>log 2 \<bar>y\<bar>\<rfloor> + 1)"
proof -
  from assms have p: "0 < \<bar>y\<bar>" by simp
  have "2 powr \<lfloor>log 2 \<bar>y\<bar>\<rfloor> \<le> \<bar>y\<bar> \<and> \<bar>y\<bar> < 2 powr (\<lfloor>log 2 \<bar>y\<bar>\<rfloor> + 1)"
    using floor_log_eq_powr_iff [OF p, of 2 "\<lfloor>log 2 \<bar>y\<bar>\<rfloor>"] by simp
  moreover have "(2::real) powr real_of_int (\<lfloor>log 2 \<bar>y\<bar>\<rfloor> + 1) = 2 powi (\<lfloor>log 2 \<bar>y\<bar>\<rfloor> + 1)"
    by (rule powr_real_of_int') simp_all
  moreover have "(2::real) powr real_of_int \<lfloor>log 2 \<bar>y\<bar>\<rfloor> = 2 powi \<lfloor>log 2 \<bar>y\<bar>\<rfloor>"
    by (rule powr_real_of_int') simp_all
  ultimately show "2 powi \<lfloor>log 2 \<bar>y\<bar>\<rfloor> \<le> \<bar>y\<bar>" and "\<bar>y\<bar> < 2 powi (\<lfloor>log 2 \<bar>y\<bar>\<rfloor> + 1)"
    by simp_all
qed

lemma floor_log2_ge:
  assumes "2 powi k \<le> \<bar>y\<bar>"
  shows "k \<le> \<lfloor>log 2 \<bar>y\<bar>\<rfloor>"
proof -
  have pos: "(0::real) < 2 powi k" by (rule zero_less_power_int) simp
  have y: "y \<noteq> 0"
  proof
    assume "y = 0"
    with assms have "(2::real) powi k \<le> 0" by simp
    with pos show False by linarith
  qed
  have lt: "(2::real) powi k < 2 powi (\<lfloor>log 2 \<bar>y\<bar>\<rfloor> + 1)"
    using assms log2_bracket(2) [OF y] by linarith
  show ?thesis
  proof (rule ccontr)
    assume "\<not> k \<le> \<lfloor>log 2 \<bar>y\<bar>\<rfloor>"
    then have "\<lfloor>log 2 \<bar>y\<bar>\<rfloor> + 1 \<le> k" by simp
    then have "(2::real) powi (\<lfloor>log 2 \<bar>y\<bar>\<rfloor> + 1) \<le> 2 powi k"
      by (rule power_int_increasing) simp
    with lt show False by simp
  qed
qed

lemma floor_log2_less:
  assumes "y \<noteq> 0" and "\<bar>y\<bar> < 2 powi k"
  shows "\<lfloor>log 2 \<bar>y\<bar>\<rfloor> < k"
proof -
  have lt: "(2::real) powi \<lfloor>log 2 \<bar>y\<bar>\<rfloor> < 2 powi k"
    using assms log2_bracket(1) [OF assms(1)] by linarith
  show ?thesis
  proof (rule ccontr)
    assume "\<not> \<lfloor>log 2 \<bar>y\<bar>\<rfloor> < k"
    then have "k \<le> \<lfloor>log 2 \<bar>y\<bar>\<rfloor>" by simp
    then have "(2::real) powi k \<le> 2 powi \<lfloor>log 2 \<bar>y\<bar>\<rfloor>"
      by (rule power_int_increasing) simp
    with lt show False by simp
  qed
qed

lemma round_double_normal:
  assumes lo: "2 powi (- 1022) \<le> \<bar>y\<bar>" and hi: "\<bar>y\<bar> \<le> 2 ^ 1023"
  shows "\<exists>r. round_double y = Num r \<and> \<bar>r - y\<bar> \<le> \<bar>y\<bar> / 2 ^ 53"
proof -
  define e where "e = \<lfloor>log 2 \<bar>y\<bar>\<rfloor>"
  define u :: real where "u = 2 powi (e - 52)"
  define r where "r = of_int (ties_even (y / u)) * u"
  have pos: "(0::real) < 2 powi (- 1022)" by (rule zero_less_power_int) simp
  with lo have y: "y \<noteq> 0" by auto
  have e: "- 1022 \<le> e"
    unfolding e_def by (rule floor_log2_ge [OF lo])
  then have ex: "exponent y = e"
    by (simp add: exponent_def e_def)
  have u: "0 < u" unfolding u_def by (rule zero_less_power_int) simp
  have u2: "u = 2 powi e / 2 ^ 52"
    unfolding u_def by (simp add: power_int_diff)
  have ey: "2 powi e \<le> \<bar>y\<bar>"
    unfolding e_def by (rule log2_bracket(1) [OF y])
  have "\<bar>r - y\<bar> = \<bar>of_int (ties_even (y / u)) - y / u\<bar> * u"
  proof -
    have "r - y = (of_int (ties_even (y / u)) - y / u) * u"
      using u by (simp add: r_def field_simps)
    then show ?thesis using u by (simp add: abs_mult)
  qed
  also have "\<dots> \<le> (1 / 2) * u"
    using ties_even_close [of "y / u"] u by (intro mult_right_mono) simp_all
  also have "\<dots> = 2 powi e / 2 ^ 53"
    by (simp add: u2)
  also have "\<dots> \<le> \<bar>y\<bar> / 2 ^ 53"
    using ey by (simp add: divide_right_mono)
  finally have close: "\<bar>r - y\<bar> \<le> \<bar>y\<bar> / 2 ^ 53" .
  have "\<bar>r\<bar> \<le> \<bar>y\<bar> + \<bar>y\<bar> / 2 ^ 53"
    using close by linarith
  also have "\<dots> \<le> 2 ^ 1023 + 2 ^ 1023 / 2 ^ 53"
    using hi by (intro add_mono divide_right_mono) simp_all
  also have "\<dots> \<le> MAX_VALUE"
    by (simp add: MAX_VALUE_def)
  finally have "\<bar>r\<bar> \<le> MAX_VALUE" .
  then have "\<not> MAX_VALUE < r" "\<not> r < - MAX_VALUE" by linarith+
  then have "round_double y = Num r"
    using y by (simp add: round_double_def Let_def ex u_def r_def)
  with close show ?thesis by blast
qed

lemma round_double_overflow:
  assumes "2 ^ 1024 \<le> y"
  shows "round_double y = PosInf"
proof -
  define e where "e = \<lfloor>log 2 \<bar>y\<bar>\<rfloor>"
  define u :: real where "u = 2 powi (e - 52)"
  define r where "r = of_int (ties_even (y / u)) * u"
  have big: "(0::real) < 2 ^ 1024" by simp
  with assms have y: "0 < y" by linarith
  have "(2::real) powi 1024 \<le> \<bar>y\<bar>" using assms y by simp
  then have e: "1024 \<le> e"
    unfolding e_def by (rule floor_log2_ge)
  then have ex: "exponent y = e"
    by (simp add: exponent_def e_def)
  have u: "0 < u" unfolding u_def by (rule zero_less_power_int) simp
  have u2: "2 ^ 52 * u = 2 powi e"
    unfolding u_def by (simp add: power_int_diff)
  have ey: "2 powi e \<le> y"
    using log2_bracket(1) [of y] y by (simp add: e_def)
  have "2 ^ 52 \<le> y / u"
    using ey u u2 by (simp add: pos_le_divide_eq)
  then have "(2 ^ 52 :: int) \<le> \<lfloor>y / u\<rfloor>"
    by (simp add: le_floor_iff)
  with ties_even_ge_floor [of "y / u"] have "(2 ^ 52 :: int) \<le> ties_even (y / u)"
    by linarith
  then have "(2 ^ 52 :: real) \<le> of_int (ties_even (y / u))"
    by (metis of_int_le_iff of_int_numeral of_int_power)
  then have "2 ^ 52 * u \<le> r"
    unfolding r_def using u by (intro mult_right_mono) simp_all
  then have "2 powi e \<le> r" using u2 by simp
  moreover have "(2::real) powi 1024 \<le> 2 powi e"
    using e by (intro power_int_increasing) simp_all
  moreover have "MAX_VALUE < 2 powi 1024"
    by (simp add: MAX_VALUE_def)
  ultimately have "MAX_VALUE < r" by linarith
  then show ?thesis
    using y by (simp add: round_double_def Let_def ex u_def r_def)
qed

lemma round_double_tiny:
  assumes "0 < y" and "y < 2 powi (- 1075)"
  shows "round_double y = Num 0"
proof -
  have "\<lfloor>log 2 \<bar>y\<bar>\<rfloor> < - 1075"
    using assms by (intro floor_log2_less) simp_all
  then have ex: "exponent y = - 1022"
    by (simp add: exponent_def)
  have "y / 2 powi (- 1074) < 2 powi (- 1075) / 2 powi (- 1074)"
    using assms(2) by (intro divide_strict_right_mono) simp_all
  also have "\<dots> = (1 / 2 :: real)"
    by (simp add: power_int_minus field_simps)
  finally have "y / 2 powi (- 1074) < 1 / 2" .
  moreover have "0 \<le> y / 2 powi (- 1074)"
    using assms(1) by simp
  ultimately have "ties_even (y / 2 powi (- 1074)) = 0"
    by (intro ties_even_zero)
  moreover have "0 < MAX_VALUE" by (simp add: MAX_VALUE_def)
  ultimately show ?thesis
    using assms(1) by (simp add: round_double_def Let_def ex)
qed

lemma round_double_factor:
  assumes "1 / 2 ^ 1010 \<le> y" and "y \<le> 2 ^ 1010"
  shows "\<exists>f. round_double y = Num (y * f) \<and> \<bar>f - 1\<bar> \<le> 1 / 2 ^ 53"
proof -
  have "(0::real) < 1 / 2 ^ 1010" by simp
  with assms(1) have y: "0 < y" by linarith
  have "(2::real) powi (- 1022) \<le> 1 / 2 ^ 1010"
    by (simp add: power_int_minus field_simps)
  with assms(1) y have lo: "2 powi (- 1022) \<le> \<bar>y\<bar>" by simp
  have "(2::real) ^ 1010 \<le> 2 ^ 1023" by simp
  with assms(2) y have hi: "\<bar>y\<bar> \<le> 2 ^ 1023" by simp
  from round_double_normal [OF lo hi] obtain r where
    r: "round_double y = Num r" and c: "\<bar>r - y\<bar> \<le> \<bar>y\<bar> / 2 ^ 53"
    by blast
  have "r = y * (r / y)" using y by simp
  moreover have "\<bar>r / y - 1\<bar> \<le> 1 / 2 ^ 53"
  proof -
    have "r / y - 1 = (r - y) / y" using y by (simp add: field_simps)
    then have "\<bar>r / y - 1\<bar> = \<bar>r - y\<bar> / y" using y by simp
    also have "\<dots> \<le> (\<bar>y\<bar> / 2 ^ 53) / y"
      using c y by (intro divide_right_mono) simp_all
    also have "\<dots> = 1 / 2 ^ 53" using y by simp
    finally show ?thesis .
  qed
  ultimately show ?thesis using r by (intro exI [of _ "r / y"]) simp
qed

lemma scale_range:
  fixes a g :: real
  assumes "1 / 2 ^ m \<le> a" "a \<le> 2 ^ m" "1 / 2 ^ n \<le> g" "g \<le> 2 ^ n"
  shows "1 / 2 ^ (m + n) \<le> a * g" and "a * g \<le> 2 ^ (m + n)"
proof -
  have "(0::real) < 1 / 2 ^ m" and "(0::real) < 1 / 2 ^ n" by simp_all
  with assms(1,3) have a: "0 < a" and g: "0 < g" by linarith+
  have "(1 / 2 ^ m) * (1 / 2 ^ n) \<le> a * g"
    using assms(1,3) a g by (intro mult_mono) simp_all
  then show "1 / 2 ^ (m + n) \<le> a * g" by (simp add: power_add)
  have "a * g \<le> 2 ^ m * 2 ^ n"
    using assms(2,4) a g by (intro mult_mono) simp_all
  then show "a * g \<le> 2 ^ (m + n)" by (simp add: power_add)
qed

lemma factor_range:
  fixes f :: real
  assumes "\<bar>f - 1\<bar> \<le> 1 / 2 ^ 53"
  shows "1 / 2 \<le> f" and "f \<le> 2"
proof -
  have "(1::real) / 2 ^ 53 \<le> 1 / 2" by simp
  with assms show "1 / 2 \<le> f" and "f \<le> 2" by linarith+
qed

lemma factor_step:
  fixes a b k :: real
  assumes "\<bar>a - 1\<bar> \<le> k / 2 ^ 53" and "\<bar>b - 1\<bar> \<le> 1 / 2 ^ 53" and "0 \<le> k" and "k \<le> 8"
  shows "\<bar>a * b - 1\<bar> \<le> (k + 2) / 2 ^ 53"
proof -
  define e :: real where "e = 1 / 2 ^ 53"
  have e: "0 < e" "e \<le> 1 / 8" by (simp_all add: e_def)
  have a: "\<bar>a - 1\<bar> \<le> k * e" and b: "\<bar>b - 1\<bar> \<le> e"
    using assms(1,2) by (simp_all add: e_def)
  have "a * b - 1 = (a - 1) * (b - 1) + (a - 1) + (b - 1)"
    by (simp add: algebra_simps)
  moreover have "\<bar>(a - 1) * (b - 1) + (a - 1) + (b - 1)\<bar>
      \<le> \<bar>(a - 1) * (b - 1)\<bar> + \<bar>a - 1\<bar> + \<bar>b - 1\<bar>"
    by linarith
  ultimately have "\<bar>a * b - 1\<bar> \<le> \<bar>a - 1\<bar> * \<bar>b - 1\<bar> + \<bar>a - 1\<bar> + \<bar>b - 1\<bar>"
    by (simp only: abs_mult)
  moreover have "\<bar>a - 1\<bar> * \<bar>b - 1\<bar> \<le> (k * e) * e"
    using a b assms(3) e by (intro mult_mono) simp_all
  moreover have "(k * e) * e \<le> 1 * e"
  proof (rule mult_right_mono)
    have "k * e \<le> 8 * (1 / 8)"
      using assms(3,4) e by (intro mult_mono) simp_all
    then show "k * e \<le> 1" by simp
    show "0 \<le> e" using e by simp
  qed
  ultimately have "\<bar>a * b - 1\<bar> \<le> e + k * e + e"
    using a b by linarith
  also have "\<dots> = (k + 2) / 2 ^ 53"
    by (simp add: e_def field_simps)
  finally show ?thesis .
qed

lemma literal_254:
  "\<exists>c. round_double (254 / 10) = Num c \<and> 25 \<le> c \<and> c \<le> 26"
proof -
  have "(2::real) powi (- 1022) \<le> \<bar>254 / 10\<bar>"
    by (simp add: power_int_minus field_simps)
  moreover have "\<bar>254 / 10 :: real\<bar> \<le> 2 ^ 1023" by simp
  ultimately obtain c where c: "round_double (254 / 10) = Num c"
    and e: "\<bar>c - 254 / 10\<bar> \<le> \<bar>254 / 10\<bar> / 2 ^ 53"
    using round_double_normal by blast
  have "\<bar>254 / 10 :: real\<bar> / 2 ^ 53 \<le> 4 / 10" by simp
  with e have "25 \<le> c \<and> c \<le> 26" by linarith
  with c show ?thesis by blast
qed

lemma round_double_scaled:
  fixes a g :: real
  assumes "1 / 2 ^ m \<le> a" "a \<le> 2 ^ m" "1 / 2 ^ n \<le> g" "g \<le> 2 ^ n" "m + n \<le> 1010"
  shows "\<exists>f. round_double (a * g) = Num (a * g * f) \<and> \<bar>f - 1\<bar> \<le> 1 / 2 ^ 53"
proof (rule round_double_factor)
  have p: "(2::real) ^ (m + n) \<le> 2 ^ 1010"
    using assms(5) by (intro power_increasing) simp_all
  have "(1::real) / 2 ^ 1010 \<le> 1 / 2 ^ (m + n)"
    using p by (intro divide_left_mono) simp_all
  also have "\<dots> \<le> a * g" by (rule scale_range(1) [OF assms(1-4)])
  finally show "1 / 2 ^ 1010 \<le> a * g" .
  have "a * g \<le> 2 ^ (m + n)" by (rule scale_range(2) [OF assms(1-4)])
  from this p show "a * g \<le> 2 ^ 1010" by (rule order_trans)
qed

lemma factor_product_range:
  fixes a b :: real
  assumes "1 / 2 ^ m \<le> a" "a \<le> 2 ^ m" "\<bar>b - 1\<bar> \<le> 1 / 2 ^ 53"
  shows "1 / 2 ^ (m + 1) \<le> a * b" and "a * b \<le> 2 ^ (m + 1)"
proof -
  have b: "1 / 2 ^ 1 \<le> b" "b \<le> 2 ^ 1"
    using factor_range [OF assms(3)] by simp_all
  show "1 / 2 ^ (m + 1) \<le> a * b" by (rule scale_range(1) [OF assms(1,2) b])
  show "a * b \<le> 2 ^ (m + 1)" by (rule scale_range(2) [OF assms(1,2) b])
qed

lemma exponent_eq:
  assumes "2 powi k \<le> \<bar>y\<bar>" and "\<bar>y\<bar> < 2 powi (k + 1)"
  shows "exponent y = max k (- 1022)"
proof -
  have pos: "(0::real) < 2 powi k" by (rule zero_less_power_int) simp
  have y: "y \<noteq> 0"
  proof
    assume "y = 0"
    with assms(1) have "(2::real) powi k \<le> 0" by simp
    with pos show False by linarith
  qed
  have "k \<le> \<lfloor>log 2 \<bar>y\<bar>\<rfloor>" by (rule floor_log2_ge [OF assms(1)])
  moreover have "\<lfloor>log 2 \<bar>y\<bar>\<rfloor> < k + 1" by (rule floor_log2_less [OF y assms(2)])
  ultimately have "\<lfloor>log 2 \<bar>y\<bar>\<rfloor> = k" by simp
  then show ?thesis by (simp add: exponent_def)
qed

text \<open>The double nearest to one tenth, as the rounding computes it.\<close>

lemma round_double_tenth:
  "round_double (1 / 10) = Num (3602879701896397 / 36028797018963968)"
proof -
  have e: "exponent (1 / 10) = - 4"
    using exponent_eq [of "- 4" "1 / 10"] by (simp add: power_int_minus)
  have u: "(2::real) powi (- 4 - 52) = 1 / 72057594037927936"
    by (simp add: power_int_minus field_simps)
  have f: "\<lfloor>(7205759403792793 + 3 / 5 :: real)\<rfloor> = 7205759403792793"
    by (simp add: floor_eq_iff)
  have t: "ties_even (7205759403792793 + 3 / 5) = 7205759403792794"
    unfolding ties_even_def Let_def f by simp
  have q: "(1 / 10 :: real) / (1 / 72057594037927936) = 7205759403792793 + 3 / 5"
    by simp
  have m: "(3602879701896397 / 36028797018963968 :: real) \<le> MAX_VALUE"
    "- MAX_VALUE \<le> (3602879701896397 / 36028797018963968 :: real)"
    by (simp_all add: MAX_VALUE_def)
  show ?thesis
    unfolding round_double_def Let_def e u q t using m by simp
qed

text \<open>
  Claim C4, as amended. For every \<open>x\<close> and \<open>d > 0\<close> with \<open>x\<close> and \<open>x * d\<close> between
  \<open>2^-1000\<close> and \<open>2^1000\<close>, \<open>pxToMm(mmToPx(x, d), d)\<close> is a finite number within
  \<open>x / 2^50\<close> of \<open>x\<close>; and for \<open>x = 0\<close> and every \<open>d > 0\<close> it is \<open>0\<close>.
\<close>

theorem px_mm_roundtrip_in_range:
  "(1 / 2 ^ 1000 \<le> x \<and> x \<le> 2 ^ 1000 \<and> 0 < d \<and> 1 / 2 ^ 1000 \<le> x * d \<and> x * d \<le> 2 ^ 1000 \<longrightarrow>
      (\<exists>r. pxToMm (mmToPx (Num x) (Num d)) (Num d) = Num r \<and> \<bar>r - x\<bar> \<le> x / 2 ^ 50))
   \<and> (0 < d \<longrightarrow> pxToMm (mmToPx (Num 0) (Num d)) (Num d) = Num 0)"
proof -
  from literal_254 obtain c where c: "round_double (254 / 10) = Num c"
    and c25: "25 \<le> c" and c26: "c \<le> 26"
    by blast
  have cpos: "0 < c" using c25 by linarith
  have r0: "round_double 0 = Num 0" by (simp add: round_double_def)
  have zero: "pxToMm (mmToPx (Num 0) (Num d)) (Num d) = Num 0" if "0 < d"
    unfolding pxToMm_def mmToPx_def c using that cpos by (simp add: r0)
  have main: "\<exists>r. pxToMm (mmToPx (Num x) (Num d)) (Num d) = Num r \<and> \<bar>r - x\<bar> \<le> x / 2 ^ 50"
    if x1: "1 / 2 ^ 1000 \<le> x" and x2: "x \<le> 2 ^ 1000" and d: "0 < d"
      and xd1: "1 / 2 ^ 1000 \<le> x * d" and xd2: "x * d \<le> 2 ^ 1000"
  proof -
    have "(0::real) < 1 / 2 ^ 1000" by simp
    with x1 have x: "0 < x" by linarith
    have ic: "1 / 2 ^ 5 \<le> 1 / c" "1 / c \<le> 2 ^ 5"
      using c25 c26 cpos by (simp_all add: field_simps)
    \<comment> \<open>\<open>mm / 25.4\<close>\<close>
    from round_double_scaled [OF x1 x2 ic] obtain f1 where
      q1: "round_double (x * (1 / c)) = Num (x * (1 / c) * f1)"
      and f1: "\<bar>f1 - 1\<bar> \<le> 1 / 2 ^ 53"
      by auto
    have s1: "js_div (Num x) (Num c) = Num (x * (1 / c) * f1)"
      using cpos q1 by simp
    \<comment> \<open>\<open>(mm / 25.4) * dpi\<close>\<close>
    have g2: "1 / 2 ^ (5 + 1) \<le> 1 / c * f1" "1 / c * f1 \<le> 2 ^ (5 + 1)"
      by (rule factor_product_range [OF ic f1])+
    from round_double_scaled [OF xd1 xd2 g2] obtain f2 where
      p1: "round_double (x * d * (1 / c * f1)) = Num (x * d * (1 / c * f1) * f2)"
      and f2: "\<bar>f2 - 1\<bar> \<le> 1 / 2 ^ 53"
      by auto
    have e2: "x * (1 / c) * f1 * d = x * d * (1 / c * f1)" by simp
    have s2: "mmToPx (Num x) (Num d) = Num (x * d * (1 / c * f1) * f2)"
      unfolding mmToPx_def c s1 js_mul.simps e2 by (rule p1)
    \<comment> \<open>\<open>px * 25.4\<close>\<close>
    have one: "1 / 2 ^ 0 \<le> (1::real)" "(1::real) \<le> 2 ^ 0" by simp_all
    have g3a: "1 / 2 ^ (0 + 1) \<le> 1 * f1" "1 * f1 \<le> 2 ^ (0 + 1)"
      by (rule factor_product_range [OF one f1])+
    have g3: "1 / 2 ^ (0 + 1 + 1) \<le> 1 * f1 * f2" "1 * f1 * f2 \<le> 2 ^ (0 + 1 + 1)"
      by (rule factor_product_range [OF g3a f2])+
    from round_double_scaled [OF xd1 xd2 g3] obtain f3 where
      q2: "round_double (x * d * (1 * f1 * f2)) = Num (x * d * (1 * f1 * f2) * f3)"
      and f3: "\<bar>f3 - 1\<bar> \<le> 1 / 2 ^ 53"
      by auto
    have e3: "x * d * (1 / c * f1) * f2 * c = x * d * (1 * f1 * f2)"
      using cpos by simp
    have s3: "js_mul (Num (x * d * (1 / c * f1) * f2)) (Num c) = Num (x * d * (1 * f1 * f2) * f3)"
      unfolding js_mul.simps e3 by (rule q2)
    \<comment> \<open>\<open>(px * 25.4) / dpi\<close>\<close>
    have g4: "1 / 2 ^ (0 + 1 + 1 + 1) \<le> 1 * f1 * f2 * f3" "1 * f1 * f2 * f3 \<le> 2 ^ (0 + 1 + 1 + 1)"
      by (rule factor_product_range [OF g3 f3])+
    from round_double_scaled [OF x1 x2 g4] obtain f4 where
      r: "round_double (x * (1 * f1 * f2 * f3)) = Num (x * (1 * f1 * f2 * f3) * f4)"
      and f4: "\<bar>f4 - 1\<bar> \<le> 1 / 2 ^ 53"
      by auto
    have e4: "x * d * (1 * f1 * f2) * f3 / d = x * (1 * f1 * f2 * f3)"
      using d by simp
    have dn: "d \<noteq> 0" using d by simp
    have s4: "js_div (Num (x * d * (1 * f1 * f2) * f3)) (Num d) = Num (x * (1 * f1 * f2 * f3) * f4)"
      by (simp only: js_div.simps dn if_False e4 r)
    have res: "pxToMm (mmToPx (Num x) (Num d)) (Num d) = Num (x * (f1 * f2 * f3 * f4))"
      unfolding pxToMm_def c s2 s3 s4 by simp
    \<comment> \<open>the four rounding factors together\<close>
    have k1: "\<bar>f1 - 1\<bar> \<le> 1 / 2 ^ 53" by (rule f1)
    have k2: "\<bar>f1 * f2 - 1\<bar> \<le> (1 + 2) / 2 ^ 53"
      by (rule factor_step [OF k1 f2]) simp_all
    have k3: "\<bar>f1 * f2 * f3 - 1\<bar> \<le> (1 + 2 + 2) / 2 ^ 53"
      by (rule factor_step [OF k2 f3]) simp_all
    have k4: "\<bar>f1 * f2 * f3 * f4 - 1\<bar> \<le> (1 + 2 + 2 + 2) / 2 ^ 53"
      by (rule factor_step [OF k3 f4]) simp_all
    have "\<bar>x * (f1 * f2 * f3 * f4) - x\<bar> = x * \<bar>f1 * f2 * f3 * f4 - 1\<bar>"
    proof -
      have "x * (f1 * f2 * f3 * f4) - x = x * (f1 * f2 * f3 * f4 - 1)"
        by (simp add: algebra_simps)
      then show ?thesis using x by (simp add: abs_mult)
    qed
    also have "\<dots> \<le> x * ((1 + 2 + 2 + 2) / 2 ^ 53)"
      using k4 x by (intro mult_left_mono) simp_all
    also have "\<dots> \<le> x / 2 ^ 50"
      using x by (simp add: field_simps)
    finally have "\<bar>x * (f1 * f2 * f3 * f4) - x\<bar> \<le> x / 2 ^ 50" .
    with res show ?thesis by blast
  qed
  from main zero show ?thesis by blast
qed

theorem px_mm_roundtrip_in_range_witness:
  "(1 / 2 ^ 1000 \<le> (70 :: real)) \<and> (70 :: real) \<le> 2 ^ 1000 \<and> (0 :: real) < 96
   \<and> (1 / 2 ^ 1000 \<le> (70 :: real) * 96) \<and> (70 :: real) * 96 \<le> 2 ^ 1000
   \<and> (\<exists>r. pxToMm (mmToPx (Num 70) (Num 96)) (Num 96) = Num r \<and> \<bar>r - 70\<bar> \<le> 70 / 2 ^ 50)
   \<and> pxToMm (mmToPx (Num 0) (Num 96)) (Num 96) = Num 0"
proof -
  have h: "(1 / 2 ^ 1000 \<le> (70 :: real)) \<and> (70 :: real) \<le> 2 ^ 1000 \<and> (0 :: real) < 96
      \<and> (1 / 2 ^ 1000 \<le> (70 :: real) * 96) \<and> (70 :: real) * 96 \<le> 2 ^ 1000"
    by simp
  from px_mm_roundtrip_in_range [of 70 96] h
  have "(\<exists>r. pxToMm (mmToPx (Num 70) (Num 96)) (Num 96) = Num r \<and> \<bar>r - 70\<bar> \<le> 70 / 2 ^ 50)
      \<and> pxToMm (mmToPx (Num 0) (Num 96)) (Num 96) = Num 0"
    by blast
  with h show ?thesis by blast
qed

text \<open>
  The claim as first stated fails at both ends of the range of doubles. For
  \<open>x = 2^1023\<close> (a finite double, about \<open>8.99e307\<close>) and \<open>d = 96\<close> the product in
  \<open>mmToPx\<close> overflows and the round trip is \<open>Infinity\<close>; for \<open>x = 1\<close> and
  \<open>d = 2^-1074\<close> (the smallest positive double) the product rounds to \<open>0\<close> and the
  round trip is \<open>0\<close>.
\<close>

theorem px_mm_roundtrip_leaves_range:
  "pxToMm (mmToPx (Num (2 ^ 1023)) (Num 96)) (Num 96) = PosInf
   \<and> pxToMm (mmToPx (Num 1) (Num (1 / 2 ^ 1074))) (Num (1 / 2 ^ 1074)) = Num 0"
proof -
  from literal_254 obtain c where c: "round_double (254 / 10) = Num c"
    and c25: "25 \<le> c" and c26: "c \<le> 26"
    by blast
  have cpos: "0 < c" and cn: "c \<noteq> 0" using c25 by linarith+
  have r0: "round_double 0 = Num 0" by (simp add: round_double_def)
  have tiny: "(2::real) powi (- 1022) \<le> 1 / 32"
    by (simp add: power_int_minus field_simps)
  \<comment> \<open>overflow\<close>
  define P :: real where "P = 2 ^ 1023"
  have P32: "32 \<le> P"
    using power_increasing [of 5 1023 "2::real"] by (simp add: P_def)
  have P2: "(2::real) ^ 1024 = 2 * P" by (simp add: P_def)
  have y1: "P / 26 \<le> P / c" "P / c \<le> P / 25"
    using c25 c26 cpos P32 by (intro divide_left_mono; simp)+
  have p26: "1 \<le> P / 26" and p25: "P / 25 \<le> P" using P32 by simp_all
  have lo: "2 powi (- 1022) \<le> \<bar>P / c\<bar>"
    using tiny p26 y1(1) by linarith
  have "\<bar>P / c\<bar> \<le> P"
    using p26 p25 y1 by linarith
  then have hi: "\<bar>P / c\<bar> \<le> 2 ^ 1023"
    unfolding P_def .
  from round_double_normal [OF lo hi] obtain q where
    q: "round_double (P / c) = Num q" and qc: "\<bar>q - P / c\<bar> \<le> \<bar>P / c\<bar> / 2 ^ 53"
    by blast
  have pcpos: "0 < P / c" using p26 y1(1) by linarith
  have "\<bar>P / c\<bar> / 2 ^ 53 \<le> \<bar>P / c\<bar> / 4"
    by (intro divide_left_mono) simp_all
  with qc have "\<bar>q - P / c\<bar> \<le> \<bar>P / c\<bar> / 4" by (rule order_trans)
  moreover define A where "A = P / c"
  ultimately have "\<bar>q - A\<bar> \<le> \<bar>A\<bar> / 4" "P / 26 \<le> A" "0 < A"
    using y1(1) pcpos by simp_all
  then have "3 / 4 * (P / 26) \<le> q" by linarith
  then have "2 * P \<le> q * 96" using P32 by simp
  then have over: "round_double (q * 96) = PosInf"
    unfolding P2 [symmetric] by (rule round_double_overflow)
  have a: "pxToMm (mmToPx (Num (2 ^ 1023)) (Num 96)) (Num 96) = PosInf"
    unfolding pxToMm_def mmToPx_def c P_def [symmetric]
    using cn cpos q over by simp
  \<comment> \<open>underflow\<close>
  define m :: real where "m = 1 / 2 ^ 1074"
  have mpos: "0 < m" and mn: "m \<noteq> 0" by (simp_all add: m_def)
  have half: "(2::real) powi (- 1075) = m / 2"
    by (simp add: m_def power_int_minus field_simps)
  have "2 powi (- 1022) \<le> \<bar>1 / c\<bar>" "\<bar>1 / c\<bar> \<le> 2 ^ 1023"
  proof -
    have i: "1 / 26 \<le> 1 / c" "1 / c \<le> 1 / 25"
      using c25 c26 cpos by (intro divide_left_mono; simp)+
    from tiny i show "2 powi (- 1022) \<le> \<bar>1 / c\<bar>" by linarith
    have "(1::real) \<le> 2 ^ 1023" by (rule one_le_power) simp
    with i show "\<bar>1 / c\<bar> \<le> 2 ^ 1023" by linarith
  qed
  from round_double_normal [OF this] obtain q' where
    q': "round_double (1 / c) = Num q'" and qc': "\<bar>q' - 1 / c\<bar> \<le> \<bar>1 / c\<bar> / 2 ^ 53"
    by blast
  have ic: "1 / 26 \<le> 1 / c" "1 / c \<le> 1 / 25"
    using c25 c26 cpos by (intro divide_left_mono; simp)+
  have "\<bar>1 / c\<bar> / 2 ^ 53 \<le> \<bar>1 / c\<bar> / 4"
    by (intro divide_left_mono) simp_all
  with qc' have "\<bar>q' - 1 / c\<bar> \<le> \<bar>1 / c\<bar> / 4" by (rule order_trans)
  moreover define B where "B = 1 / c"
  ultimately have "\<bar>q' - B\<bar> \<le> \<bar>B\<bar> / 4" "1 / 26 \<le> B" "B \<le> 1 / 25"
    using ic by simp_all
  then have qr: "0 < q'" "q' < 1 / 2" by linarith+
  have "0 < q' * m" using qr mpos by simp
  moreover have "q' * m < 2 powi (- 1075)"
    unfolding half using qr mpos by (simp add: field_simps)
  ultimately have under: "round_double (q' * m) = Num 0"
    by (rule round_double_tiny)
  have b: "pxToMm (mmToPx (Num 1) (Num (1 / 2 ^ 1074))) (Num (1 / 2 ^ 1074)) = Num 0"
    unfolding pxToMm_def mmToPx_def c m_def [symmetric]
    using cn mn q' under by (simp add: r0)
  from a b show ?thesis by blast
qed

text \<open>In exact arithmetic \<open>pxToMm\<close> undoes \<open>mmToPx\<close> at every resolution other than 0.\<close>

lemma px_mm_roundtrip_exact: "d \<noteq> 0 \<Longrightarrow> pxToMm_exact (mmToPx_exact x d) d = x"
  by (simp add: pxToMm_exact_def mmToPx_exact_def)

section \<open>The merge produces the specified pages\<close>






































section \<open>Bulk import builds the zipped records\<close>

lemma split_js_not_empty: "split_js sep s \<noteq> []"
  by (induction s) (auto split: list.splits)

lemma assign_cols_stored:
  "assign_cols headers values i person
     = person ++ map_of (rev (filter (\<lambda>(h, v). v \<noteq> [] \<and> h \<noteq> ''__proto__'')
         (zip headers (drop i values))))"
proof (induction headers arbitrary: i person)
  case Nil
  show ?case by simp
next
  case (Cons header rest)
  show ?case
  proof (cases "i < length values")
    case True
    then have d: "drop i values = values ! i # drop (Suc i) values"
      by (simp add: Cons_nth_drop_Suc)
    show ?thesis
      by (simp add: Cons.IH d True map_add_upd_left del: drop_Suc_Cons)
  next
    case False
    then show ?thesis by (simp add: Cons.IH)
  qed
qed

declare import_rows.simps [simp del]

lemma import_rows_map:
  "import_rows rand headers lines i newPeople
     = newPeople @ map (\<lambda>k. stored_record (rand (k - 1)) headers (cells (lines ! k)))
         [i ..< length lines]"
proof (induction rand headers lines i newPeople rule: import_rows.induct)
  case (1 rand headers lines i newPeople)
  show ?case
  proof (cases "i < length lines")
    case True
    have "import_rows rand headers lines i newPeople
        = import_rows rand headers lines (Suc i)
            (newPeople @ [stored_record (rand (i - 1)) headers (cells (lines ! i))])"
      by (subst import_rows.simps)
        (simp add: True Let_def assign_cols_stored stored_record_def cells_def)
    also have "\<dots> = (newPeople @ [stored_record (rand (i - 1)) headers (cells (lines ! i))])
        @ map (\<lambda>k. stored_record (rand (k - 1)) headers (cells (lines ! k))) [Suc i ..< length lines]"
      using "1.IH" [OF True refl refl refl]
      by (simp add: assign_cols_stored stored_record_def cells_def)
    finally show ?thesis using True by (simp add: upt_conv_Cons)
  next
    case False
    then show ?thesis by (subst import_rows.simps) simp
  qed
qed

lemma handleBulkUpload_rows:
  assumes "lines = split_js CHR 0x0A (trim input)" and "2 \<le> length lines"
  shows "handleBulkUpload rand input people
     = map (\<lambda>k. stored_record (rand (k - 1)) (cells (lines ! 0)) (cells (lines ! k)))
         [1 ..< length lines]"
  using assms by (simp add: handleBulkUpload_def Let_def import_rows_map cells_def)

lemma handleBulkUpload_row:
  assumes "lines = split_js CHR 0x0A (trim input)" and "2 \<le> length lines"
    and "1 \<le> k" and "k < length lines"
  shows "handleBulkUpload rand input people ! (k - 1)
     = stored_record (rand (k - 1)) (cells (lines ! 0)) (cells (lines ! k))"
proof -
  have "[1 ..< length lines] ! (k - 1) = k"
    using assms(3,4) by simp
  then show ?thesis
    unfolding handleBulkUpload_rows [OF assms(1,2)] using assms(3,4) by simp
qed

text \<open>Leaving the \<open>__proto__\<close> columns out changes nothing at any other key.\<close>

lemma map_of_rev_without_key:
  "k \<noteq> bad \<Longrightarrow>
   map_of (rev (filter (\<lambda>(h, v). P v \<and> h \<noteq> bad) xs)) k
     = map_of (rev (filter (\<lambda>(h, v). P v) xs)) k"
  by (induction xs) (auto simp: map_add_def split: option.splits)

lemma stored_record_other_key:
  assumes "k \<noteq> ''__proto__''"
  shows "stored_record g headers values k = zipped_record g headers values k"
  using map_of_rev_without_key [OF assms, of "\<lambda>v. v \<noteq> []" "zip headers values"]
  by (simp add: stored_record_def zipped_record_def map_add_def)

lemma stored_record_no_proto:
  assumes "''__proto__'' \<notin> set headers"
  shows "stored_record g headers values = zipped_record g headers values"
proof -
  have "filter (\<lambda>(h, v). v \<noteq> [] \<and> h \<noteq> ''__proto__'') (zip headers values)
      = filter (\<lambda>(h, v). v \<noteq> []) (zip headers values)"
    using assms by (intro filter_cong refl) (auto dest: set_zip_leftD)
  then show ?thesis by (simp add: stored_record_def zipped_record_def)
qed

lemma zipped_record_id_generated:
  "''id'' \<notin> set headers \<Longrightarrow> zipped_record g headers values ''id'' = Some g"
proof -
  assume a: "''id'' \<notin> set headers"
  have "''id'' \<notin> fst ` set (rev (filter (\<lambda>(h, v). v \<noteq> []) (zip headers values)))"
    using a by (auto dest: set_zip_leftD)
  then have "map_of (rev (filter (\<lambda>(h, v). v \<noteq> []) (zip headers values))) ''id'' = None"
    by (simp add: map_of_eq_None_iff)
  then show ?thesis by (simp add: zipped_record_def map_add_def)
qed

lemma zipped_record_id_csv:
  assumes "decides_id headers values c"
  shows "zipped_record g headers values ''id'' = Some (values ! c)"
proof -
  let ?ne = "\<lambda>(h, v). v \<noteq> ([] :: string)"
  let ?before = "zip (take c headers) (take c values)"
  let ?after = "zip (drop (Suc c) headers) (drop (Suc c) values)"
  from assms have c: "c < length headers" "c < length values"
    and h: "headers ! c = ''id''" and v: "values ! c \<noteq> []"
    and later: "\<And>c'. Suc c \<le> c' \<Longrightarrow> c' < length headers \<Longrightarrow> c' < length values \<Longrightarrow>
        headers ! c' = ''id'' \<Longrightarrow> values ! c' = []"
    by (auto simp: decides_id_def list_all_iff)
  have "zip headers values
      = zip (take c headers @ headers ! c # drop (Suc c) headers)
          (take c values @ values ! c # drop (Suc c) values)"
    using c by (simp add: id_take_nth_drop [symmetric])
  also have "\<dots> = ?before @ (headers ! c, values ! c) # ?after"
    using c by (subst zip_append) simp_all
  finally have z: "zip headers values = ?before @ (''id'', values ! c) # ?after"
    using h by simp
  have "''id'' \<notin> fst ` set (filter ?ne ?after)"
  proof
    assume "''id'' \<in> fst ` set (filter ?ne ?after)"
    then obtain w where w: "(''id'', w) \<in> set ?after" and wne: "w \<noteq> []"
      by auto
    from w obtain j where j: "j < length (drop (Suc c) headers)" "j < length (drop (Suc c) values)"
      and hj: "drop (Suc c) headers ! j = ''id''" and vj: "drop (Suc c) values ! j = w"
      by (auto simp: in_set_zip)
    from j hj vj have "values ! (Suc c + j) = []"
      by (intro later) simp_all
    with j vj wne show False by simp
  qed
  then have none: "map_of (rev (filter ?ne ?after)) ''id'' = None"
    by (simp add: map_of_eq_None_iff)
  have "map_of (rev (filter ?ne (zip headers values))) ''id'' = Some (values ! c)"
    unfolding z using v none by (simp add: map_add_def)
  then show ?thesis by (simp add: zipped_record_def map_add_def)
qed

lemmas bulk_eval = handleBulkUpload_def Let_def trim_def is_space_def import_rows.simps cells_def

text \<open>
  Claim C5, as amended. When the text, trimmed as a whole, has at least two lines and no
  trimmed header is \<open>id\<close> or \<open>__proto__\<close>, the attendee table is replaced by one record
  per data line, in order: the first line split on commas and trimmed gives the keys;
  every later line is split, trimmed and zipped by position with the keys, columns whose
  trimmed value is empty being left out; record number \<open>r\<close> has the \<open>r\<close>-th generated id,
  so the ids are distinct whenever the generated ones are. The input of the
  specification, \<open>Name,Role\<close> / \<open>Ada,Speaker\<close> / \<open>Linus,Staff\<close>, gives exactly the two
  records \<open>{id, Name: Ada, Role: Speaker}\<close> and \<open>{id, Name: Linus, Role: Staff}\<close>.
\<close>

theorem bulk_import_records:
  assumes "lines = split_js CHR 0x0A (trim input)"
    and "2 \<le> length lines"
    and "''id'' \<notin> set (cells (lines ! 0))"
    and "''__proto__'' \<notin> set (cells (lines ! 0))"
  shows "handleBulkUpload rand input people
      = map (\<lambda>k. zipped_record (rand (k - 1)) (cells (lines ! 0)) (cells (lines ! k)))
          [1 ..< length lines]
    \<and> length (handleBulkUpload rand input people) = length lines - 1
    \<and> (\<forall>r < length lines - 1. (handleBulkUpload rand input people ! r) ''id'' = Some (rand r))
    \<and> (inj_on rand {..< length lines - 1} \<longrightarrow>
         distinct (map (\<lambda>person. person ''id'') (handleBulkUpload rand input people)))
    \<and> handleBulkUpload rand ''Name,Role\<newline>Ada,Speaker\<newline>Linus,Staff'' people
      = [[''id'' \<mapsto> rand 0, ''Name'' \<mapsto> ''Ada'', ''Role'' \<mapsto> ''Speaker''],
         [''id'' \<mapsto> rand 1, ''Name'' \<mapsto> ''Linus'', ''Role'' \<mapsto> ''Staff'']]"
proof -
  let ?res = "handleBulkUpload rand input people"
  have rows: "?res = map (\<lambda>k. zipped_record (rand (k - 1)) (cells (lines ! 0)) (cells (lines ! k)))
      [1 ..< length lines]"
    by (simp add: handleBulkUpload_rows [OF assms(1,2)] stored_record_no_proto [OF assms(4)])
  have len: "length ?res = length lines - 1"
    by (simp add: rows)
  have ids: "(?res ! r) ''id'' = Some (rand r)" if "r < length lines - 1" for r
    using that assms(3) by (simp add: rows zipped_record_id_generated)
  have "map (\<lambda>person. person ''id'') ?res = map (\<lambda>r. Some (rand r)) [0 ..< length lines - 1]"
    by (rule nth_equalityI) (simp_all add: len ids)
  then have dist: "inj_on rand {..< length lines - 1} \<longrightarrow> distinct (map (\<lambda>person. person ''id'') ?res)"
    by (auto simp: distinct_map inj_on_def atLeast0LessThan)
  have ex: "handleBulkUpload rand ''Name,Role\<newline>Ada,Speaker\<newline>Linus,Staff'' people
      = [[''id'' \<mapsto> rand 0, ''Name'' \<mapsto> ''Ada'', ''Role'' \<mapsto> ''Speaker''],
         [''id'' \<mapsto> rand 1, ''Name'' \<mapsto> ''Linus'', ''Role'' \<mapsto> ''Staff'']]"
    by (simp add: handleBulkUpload_def Let_def trim_def is_space_def import_rows.simps)
  from rows len ids dist ex show ?thesis by blast
qed

theorem bulk_import_records_witness:
  "2 \<le> length (split_js CHR 0x0A (trim ''Name,Role\<newline>Ada,Speaker\<newline>Linus,Staff''))
   \<and> ''id'' \<notin> set (cells (split_js CHR 0x0A (trim ''Name,Role\<newline>Ada,Speaker\<newline>Linus,Staff'') ! 0))
   \<and> ''__proto__'' \<notin> set (cells (split_js CHR 0x0A (trim ''Name,Role\<newline>Ada,Speaker\<newline>Linus,Staff'') ! 0))
   \<and> inj_on sample_ids {..< 2}
   \<and> handleBulkUpload sample_ids ''Name,Role\<newline>Ada,Speaker\<newline>Linus,Staff'' []
      = [[''id'' \<mapsto> ''k3x9q0zab'', ''Name'' \<mapsto> ''Ada'', ''Role'' \<mapsto> ''Speaker''],
         [''id'' \<mapsto> ''m1p8d2wqc'', ''Name'' \<mapsto> ''Linus'', ''Role'' \<mapsto> ''Staff'']]
   \<and> distinct (map (\<lambda>person. person ''id'')
        (handleBulkUpload sample_ids ''Name,Role\<newline>Ada,Speaker\<newline>Linus,Staff'' []))"
proof -
  let ?input = "''Name,Role\<newline>Ada,Speaker\<newline>Linus,Staff''"
  have l: "split_js CHR 0x0A (trim ?input) = [''Name,Role'', ''Ada,Speaker'', ''Linus,Staff'']"
    by (simp add: trim_def is_space_def)
  have two: "2 \<le> length (split_js CHR 0x0A (trim ?input))"
    by (simp add: l)
  have noid: "''id'' \<notin> set (cells (split_js CHR 0x0A (trim ?input) ! 0))"
    by (simp add: l cells_def trim_def is_space_def)
  have noproto: "''__proto__'' \<notin> set (cells (split_js CHR 0x0A (trim ?input) ! 0))"
    by (simp add: l cells_def trim_def is_space_def)
  have inj: "inj_on sample_ids {..< 2}"
    by (auto simp: inj_on_def sample_ids_def)
  have inj': "inj_on sample_ids {..< length (split_js CHR 0x0A (trim ?input)) - 1}"
    by (auto simp: l inj_on_def sample_ids_def)
  note th = bulk_import_records [OF refl two noid noproto, of sample_ids "[]"]
  from th have e: "handleBulkUpload sample_ids ?input []
      = [[''id'' \<mapsto> sample_ids 0, ''Name'' \<mapsto> ''Ada'', ''Role'' \<mapsto> ''Speaker''],
         [''id'' \<mapsto> sample_ids 1, ''Name'' \<mapsto> ''Linus'', ''Role'' \<mapsto> ''Staff'']]"
    by blast
  from th inj' have d: "distinct (map (\<lambda>person. person ''id'')
      (handleBulkUpload sample_ids ?input []))"
    by blast
  have e': "handleBulkUpload sample_ids ?input []
      = [[''id'' \<mapsto> ''k3x9q0zab'', ''Name'' \<mapsto> ''Ada'', ''Role'' \<mapsto> ''Speaker''],
         [''id'' \<mapsto> ''m1p8d2wqc'', ''Name'' \<mapsto> ''Linus'', ''Role'' \<mapsto> ''Staff'']]"
    unfolding e by (simp add: sample_ids_def)
  from two noid noproto inj e' d show ?thesis by blast
qed

text \<open>
  The claim as first stated fails. With a header named \<open>id\<close>, both records carry the
  value of that column and not the two different generated ids; nothing keeps the
  generator from producing the same string twice, which both records then carry; and
  the non-empty value of a column named \<open>__proto__\<close> is not stored in the record.
\<close>

theorem import_ids_not_fresh:
  "(handleBulkUpload sample_ids ''id,Name\<newline>7,Ada\<newline>7,Bob'' [] ! 0) ''id'' = Some ''7''
   \<and> (handleBulkUpload sample_ids ''id,Name\<newline>7,Ada\<newline>7,Bob'' [] ! 1) ''id'' = Some ''7''
   \<and> sample_ids 0 \<noteq> sample_ids 1
   \<and> (handleBulkUpload repeated_ids ''Name,Role\<newline>Ada,Speaker\<newline>Linus,Staff'' [] ! 0) ''id''
      = (handleBulkUpload repeated_ids ''Name,Role\<newline>Ada,Speaker\<newline>Linus,Staff'' [] ! 1) ''id''
   \<and> cells (split_js CHR 0x0A (trim ''__proto__,Name\<newline>x,Ada'') ! 0) ! 0 = ''__proto__''
   \<and> cells (split_js CHR 0x0A (trim ''__proto__,Name\<newline>x,Ada'') ! 1) ! 0 = ''x''
   \<and> (handleBulkUpload sample_ids ''__proto__,Name\<newline>x,Ada'' [] ! 0) ''__proto__'' = None
   \<and> (handleBulkUpload sample_ids ''__proto__,Name\<newline>x,Ada'' [] ! 0) ''Name'' = Some ''Ada''"
  by (simp add: bulk_eval sample_ids_def repeated_ids_def)

text \<open>
  Claim C6. When the text, trimmed as a whole, has fewer than two lines (a header line
  alone among them), the import returns the attendee table it was given: nothing is
  imported, and the function has no failing branch.
\<close>

theorem bulk_import_noop:
  assumes "length (split_js CHR 0x0A (trim input)) < 2"
  shows "handleBulkUpload rand input people = people"
  using assms by (simp add: handleBulkUpload_def Let_def)

theorem bulk_import_noop_witness:
  "length (split_js CHR 0x0A (trim ''Name,Role'')) < 2
   \<and> handleBulkUpload sample_ids ''Name,Role'' [[''id'' \<mapsto> ''1'', ''Role'' \<mapsto> ''Staff'']]
      = [[''id'' \<mapsto> ''1'', ''Role'' \<mapsto> ''Staff'']]
   \<and> length (split_js CHR 0x0A (trim '' \<newline>Name,Role\<newline>\<newline>'')) < 2
   \<and> handleBulkUpload sample_ids '' \<newline>Name,Role\<newline>\<newline>'' [] = []"
proof -
  have a: "length (split_js CHR 0x0A (trim ''Name,Role'')) < 2"
    by (simp add: trim_def is_space_def)
  have b: "length (split_js CHR 0x0A (trim '' \<newline>Name,Role\<newline>\<newline>'')) < 2"
    by (simp add: trim_def is_space_def)
  from bulk_import_noop [OF a] bulk_import_noop [OF b] a b show ?thesis by simp
qed

text \<open>
  Claim C10, as amended. If a column is named \<open>id\<close>, a data row's trimmed value in it is
  not empty, and no later column named \<open>id\<close> has a non-empty value in that row, then the
  row's record has that value as its id, not the generated one; so two data rows with
  the same such value give records with the same id.
\<close>

theorem csv_id_column_overrides:
  assumes "lines = split_js CHR 0x0A (trim input)"
    and "1 \<le> k" and "k < length lines"
    and "decides_id (cells (lines ! 0)) (cells (lines ! k)) c"
    and "1 \<le> k'" and "k' < length lines"
    and "decides_id (cells (lines ! 0)) (cells (lines ! k')) c'"
  shows "(handleBulkUpload rand input people ! (k - 1)) ''id'' = Some (cells (lines ! k) ! c)
    \<and> (cells (lines ! k) ! c = cells (lines ! k') ! c' \<longrightarrow>
         (handleBulkUpload rand input people ! (k - 1)) ''id''
           = (handleBulkUpload rand input people ! (k' - 1)) ''id'')"
proof -
  from assms(2,3) have two: "2 \<le> length lines" by simp
  note row = handleBulkUpload_row [OF assms(1) two, of _ rand people]
  have a: "(handleBulkUpload rand input people ! (k - 1)) ''id'' = Some (cells (lines ! k) ! c)"
    unfolding row [OF assms(2,3)]
    by (simp add: stored_record_other_key zipped_record_id_csv [OF assms(4)])
  have b: "(handleBulkUpload rand input people ! (k' - 1)) ''id'' = Some (cells (lines ! k') ! c')"
    unfolding row [OF assms(5,6)]
    by (simp add: stored_record_other_key zipped_record_id_csv [OF assms(7)])
  from a b show ?thesis by simp
qed

theorem csv_id_column_overrides_witness:
  "decides_id (cells (split_js CHR 0x0A (trim ''id,Name\<newline>7,Ada\<newline>7,Bob'') ! 0))
      (cells (split_js CHR 0x0A (trim ''id,Name\<newline>7,Ada\<newline>7,Bob'') ! 1)) 0
   \<and> decides_id (cells (split_js CHR 0x0A (trim ''id,Name\<newline>7,Ada\<newline>7,Bob'') ! 0))
      (cells (split_js CHR 0x0A (trim ''id,Name\<newline>7,Ada\<newline>7,Bob'') ! 2)) 0
   \<and> (handleBulkUpload sample_ids ''id,Name\<newline>7,Ada\<newline>7,Bob'' [] ! 0) ''id'' = Some ''7''
   \<and> (handleBulkUpload sample_ids ''id,Name\<newline>7,Ada\<newline>7,Bob'' [] ! 0) ''id''
       = (handleBulkUpload sample_ids ''id,Name\<newline>7,Ada\<newline>7,Bob'' [] ! 1) ''id''"
proof -
  let ?input = "''id,Name\<newline>7,Ada\<newline>7,Bob''"
  have l: "split_js CHR 0x0A (trim ?input) = [''id,Name'', ''7,Ada'', ''7,Bob'']"
    by (simp add: trim_def is_space_def)
  have d1: "decides_id (cells (split_js CHR 0x0A (trim ?input) ! 0))
      (cells (split_js CHR 0x0A (trim ?input) ! 1)) 0"
    by (simp add: l cells_def trim_def is_space_def decides_id_def)
  have d2: "decides_id (cells (split_js CHR 0x0A (trim ?input) ! 0))
      (cells (split_js CHR 0x0A (trim ?input) ! 2)) 0"
    by (simp add: l cells_def trim_def is_space_def decides_id_def)
  have c1: "cells (split_js CHR 0x0A (trim ?input) ! 1) ! 0 = ''7''"
    and c2: "cells (split_js CHR 0x0A (trim ?input) ! 2) ! 0 = ''7''"
    by (simp_all add: l cells_def trim_def is_space_def)
  have k1: "(1::nat) \<le> 1" and k2: "(1::nat) \<le> 2" by simp_all
  have n1: "1 < length (split_js CHR 0x0A (trim ?input))"
    and n2: "2 < length (split_js CHR 0x0A (trim ?input))"
    by (simp_all add: l)
  from csv_id_column_overrides [OF refl k1 n1 d1 k2 n2 d2, of sample_ids "[]"] c1 c2
  have "(handleBulkUpload sample_ids ?input [] ! 0) ''id'' = Some ''7''
    \<and> (handleBulkUpload sample_ids ?input [] ! 0) ''id''
       = (handleBulkUpload sample_ids ?input [] ! 1) ''id''"
    by auto
  with d1 d2 show ?thesis by blast
qed

text \<open>
  The claim as first stated fails when two columns are named \<open>id\<close>: the first one holds
  \<open>5\<close> in the row, and the record's id is the \<open>7\<close> of the second.
\<close>

theorem first_id_column_is_overridden:
  "cells (split_js CHR 0x0A (trim ''id,id\<newline>5,7'') ! 0) ! 0 = ''id''
   \<and> cells (split_js CHR 0x0A (trim ''id,id\<newline>5,7'') ! 1) ! 0 = ''5''
   \<and> (handleBulkUpload sample_ids ''id,id\<newline>5,7'' [] ! 0) ''id'' = Some ''7''"
  by (simp add: bulk_eval)

end
